theory Spec2Isabelle
  imports Main
begin

section \<open>The object model of \<^verbatim>\<open>atom.cpp\<close>\<close>

text \<open>
  A \<^verbatim>\<open>PyObject*\<close> is modelled by its address: identity is all the code uses of a signal, a
  callback or a stored value. A null pointer is \<open>None\<close>. Attribute names are strings, looked
  up in a dict by equality. Reference counts are not modelled.
\<close>

type_synonym pyobj = nat
type_synonym pytype = nat
type_synonym kwargs = "(string \<times> pyobj) list option"

text \<open>
  A call that returns \<^verbatim>\<open>NULL\<close> or \<^verbatim>\<open>-1\<close> has set an exception: its class and what
  it was built from. \<^verbatim>\<open>cppy::type_error(msg)\<close> and \<^verbatim>\<open>cppy::type_error(ob, expected)\<close> both
  set a \<^verbatim>\<open>TypeError\<close>. \<open>Segfault\<close> stands for the undefined behaviour of reading or writing
  \<^verbatim>\<open>m_values\<close> outside the allocated slots (the source's comment calls it "the segfault").
\<close>

datatype detail = Message string | Expected pyobj string | HostMessage

datatype failure = PyErr string detail | Segfault

definition type_error :: "string \<Rightarrow> failure" where
  "type_error msg = PyErr ''TypeError'' (Message msg)"

definition type_error_expected :: "pyobj \<Rightarrow> string \<Rightarrow> failure" where
  "type_error_expected ob expected = PyErr ''TypeError'' (Expected ob expected)"

fun raises :: "string \<Rightarrow> (failure + 'a) \<Rightarrow> bool" where
  "raises cls (Inl (PyErr c d)) = (c = cls)"
| "raises cls (Inl Segfault) = False"
| "raises cls (Inr v) = False"

text \<open>
  \<^verbatim>\<open>member.h\<close> is not among the sources. A member is what \<^verbatim>\<open>atom.cpp\<close> uses of it:
  \<^verbatim>\<open>index()\<close>, \<^verbatim>\<open>validate(self, name, value)\<close> and \<^verbatim>\<open>defaultValue(self, name)\<close>, the last two
  returning an object or \<^verbatim>\<open>NULL\<close> with an exception set. Of \<^verbatim>\<open>self\<close> they are given the slot
  values; they are functions of their arguments, and do not write to the instance.
\<close>

record Member =
  index :: nat
  validate :: "pyobj option list \<Rightarrow> string \<Rightarrow> pyobj \<Rightarrow> failure + pyobj"
  defaultValue :: "pyobj option list \<Rightarrow> string \<Rightarrow> failure + pyobj"

text \<open>
  Modelled from the spec: \<^verbatim>\<open>CallbackSet\<close> (\<^verbatim>\<open>callbackset.h\<close> is not among the sources). It holds
  the callbacks of one signal in registration order; the constructor makes a set of one
  callback, \<^verbatim>\<open>add\<close> appends without looking for duplicates, and \<^verbatim>\<open>dispatch\<close> calls every
  callback in order with the same arguments and stops at the first one that fails, whose
  exception stays set. Its \<^verbatim>\<open>remove\<close>, whose policy the spec leaves open, is a parameter
  (see \<open>Host\<close> below).
\<close>

type_synonym CallbackSet = "pyobj list"
type_synonym CSPair = "pyobj \<times> CallbackSet"
type_synonym CSVector = "CSPair list"

definition CallbackSet_new :: "pyobj \<Rightarrow> CallbackSet" where
  "CallbackSet_new callback = [callback]"

definition CallbackSet_add :: "pyobj \<Rightarrow> CallbackSet \<Rightarrow> CallbackSet" where
  "CallbackSet_add callback cbset = cbset @ [callback]"

text \<open>
  What a call asked of its collaborators, in order: the record by which "is invoked" and
  "is not invoked" are stated. It is not data of the program.
\<close>

datatype event =
    DefaultValue_called string
  | Validate_called string pyobj
  | Callback_called pyobj "pyobj list" kwargs
  | GenericGetAttr_called string
  | GenericSetAttr_called string "pyobj option"

text \<open>
  The host runtime and the headers that are not among the sources, as parameters:
  \<^verbatim>\<open>Signal::TypeCheck\<close>, \<^verbatim>\<open>PyCallable_Check\<close>, the generic attribute protocol (which reads and
  writes a part \<open>'h\<close> of the object that is not a field of \<^verbatim>\<open>struct Atom\<close>), \<^verbatim>\<open>tp_alloc\<close>
  (\<open>None\<close> when allocation fails, else the host part of a zero-filled object), the call
  of a callback (its result, or the exception it raises), and \<^verbatim>\<open>CallbackSet::remove\<close>.
\<close>

record 'h Host =
  Signal_TypeCheck :: "pyobj \<Rightarrow> bool"
  PyCallable_Check :: "pyobj \<Rightarrow> bool"
  PyObject_GenericGetAttr :: "'h \<Rightarrow> string \<Rightarrow> failure + pyobj"
  PyObject_GenericSetAttr :: "'h \<Rightarrow> string \<Rightarrow> pyobj option \<Rightarrow> failure + 'h"
  tp_alloc :: "pytype \<Rightarrow> nat \<Rightarrow> 'h option"
  PyObject_Call :: "pyobj \<Rightarrow> pyobj list \<Rightarrow> kwargs \<Rightarrow> failure + pyobj"
  CallbackSet_remove :: "pyobj \<Rightarrow> CallbackSet \<Rightarrow> CallbackSet"

text \<open>
  \<^verbatim>\<open>dispatch\<close> gives the exception left set (\<open>None\<close> when every callback returned) and the
  calls it made.
\<close>

fun CallbackSet_dispatch ::
  "'h Host \<Rightarrow> CallbackSet \<Rightarrow> pyobj list \<Rightarrow> kwargs \<Rightarrow> failure option \<times> event list" where
  "CallbackSet_dispatch H [] args kw = (None, [])"
| "CallbackSet_dispatch H (cb # cbs) args kw =
     (case PyObject_Call H cb args kw of
        Inl e \<Rightarrow> (Some e, [Callback_called cb args kw])
      | Inr result \<Rightarrow>
          (case CallbackSet_dispatch H cbs args kw of
             (pending, events) \<Rightarrow> (pending, Callback_called cb args kw # events)))"

text \<open>
  \<^verbatim>\<open>struct Atom\<close>: \<^verbatim>\<open>m_values\<close> is the slot array, \<^verbatim>\<open>Py_SIZE(self)\<close> its length; \<^verbatim>\<open>m_cbsets\<close>
  is a pointer to the signal table, null until the first connect; \<^verbatim>\<open>m_members\<close> is the dict
  of the class's members, here an association list read with \<open>map_of\<close>.
\<close>

record 'h Atom =
  m_values :: "pyobj option list"
  m_cbsets :: "CSVector option"
  m_members :: "(string \<times> Member) list"
  ob_host :: 'h

type_synonym 'h ret = "(failure + pyobj) \<times> 'h Atom \<times> event list"
type_synonym 'h status = "(failure + unit) \<times> 'h Atom \<times> event list"

definition PyDict_Size :: "('k \<times> 'v) list \<Rightarrow> nat" where
  "PyDict_Size d = card (fst ` set d)"

subsection \<open>The member registry\<close>

definition RegisterMembers ::
  "(pytype \<rightharpoonup> (string \<times> Member) list) \<Rightarrow> pytype \<Rightarrow> (string \<times> Member) list
     \<Rightarrow> (pytype \<rightharpoonup> (string \<times> Member) list)" where
  "RegisterMembers registry type members = registry(type \<mapsto> members)"

definition LookupMembers ::
  "(pytype \<rightharpoonup> (string \<times> Member) list) \<Rightarrow> pytype \<Rightarrow> failure + (string \<times> Member) list" where
  "LookupMembers registry type =
     (case registry type of
        Some members \<Rightarrow> Inr members
      | None \<Rightarrow> Inl (type_error ''type has no registered members''))"

subsection \<open>Construction\<close>

definition Atom_new ::
  "'h Host \<Rightarrow> (pytype \<rightharpoonup> (string \<times> Member) list) \<Rightarrow> pytype \<Rightarrow> pyobj list \<Rightarrow> kwargs
     \<Rightarrow> failure + 'h Atom" where
  "Atom_new H registry type args kw =
     (case LookupMembers registry type of
        Inl e \<Rightarrow> Inl e
      | Inr members \<Rightarrow>
          (let size = PyDict_Size members in
           case tp_alloc H type size of
             None \<Rightarrow> Inl (PyErr ''MemoryError'' HostMessage)
           | Some h \<Rightarrow>
               Inr \<lparr> m_values = replicate size None, m_cbsets = None,
                     m_members = members, ob_host = h \<rparr>))"

subsection \<open>The attribute protocol\<close>

definition Atom_getattro :: "'h Host \<Rightarrow> 'h Atom \<Rightarrow> string \<Rightarrow> 'h ret" where
  "Atom_getattro H self name =
     (case map_of (m_members self) name of
        Some member \<Rightarrow>
          if index member < length (m_values self) then
            (case m_values self ! index member of
               Some valptr \<Rightarrow> (Inr valptr, self, [])
             | None \<Rightarrow>
                 (case defaultValue member (m_values self) name of
                    Inl e \<Rightarrow> (Inl e, self, [DefaultValue_called name])
                  | Inr valptr \<Rightarrow>
                      (Inr valptr,
                       self\<lparr> m_values := (m_values self)[index member := Some valptr] \<rparr>,
                       [DefaultValue_called name])))
          else (Inl Segfault, self, [])
      | None \<Rightarrow>
          (PyObject_GenericGetAttr H (ob_host self) name, self, [GenericGetAttr_called name]))"

definition Atom_setattro :: "'h Host \<Rightarrow> 'h Atom \<Rightarrow> string \<Rightarrow> pyobj option \<Rightarrow> 'h status" where
  "Atom_setattro H self name value =
     (case map_of (m_members self) name of
        Some member \<Rightarrow>
          (case value of
             None \<Rightarrow>
               if index member < length (m_values self)
               then (Inr (), self\<lparr> m_values := (m_values self)[index member := None] \<rparr>, [])
               else (Inl Segfault, self, [])
           | Some v \<Rightarrow>
               (case validate member (m_values self) name v of
                  Inl e \<Rightarrow> (Inl e, self, [Validate_called name v])
                | Inr valptr \<Rightarrow>
                    if index member < length (m_values self)
                    then (Inr (),
                          self\<lparr> m_values := (m_values self)[index member := Some valptr] \<rparr>,
                          [Validate_called name v])
                    else (Inl Segfault, self, [Validate_called name v])))
      | None \<Rightarrow>
          (case PyObject_GenericSetAttr H (ob_host self) name value of
             Inl e \<Rightarrow> (Inl e, self, [GenericSetAttr_called name value])
           | Inr h \<Rightarrow> (Inr (), self\<lparr> ob_host := h \<rparr>, [GenericSetAttr_called name value])))"

text \<open>
  \<^verbatim>\<open>PyObject_SetAttr(self, key, value)\<close> on an instance goes to the type's \<^verbatim>\<open>tp_setattro\<close>,
  which is \<^verbatim>\<open>Atom_setattro\<close>.
\<close>

definition PyObject_SetAttr :: "'h Host \<Rightarrow> 'h Atom \<Rightarrow> string \<Rightarrow> pyobj \<Rightarrow> 'h status" where
  "PyObject_SetAttr H self key value = Atom_setattro H self key (Some value)"

fun Atom_init_loop :: "'h Host \<Rightarrow> 'h Atom \<Rightarrow> (string \<times> pyobj) list \<Rightarrow> 'h status" where
  "Atom_init_loop H self [] = (Inr (), self, [])"
| "Atom_init_loop H self ((key, value) # rest) =
     (case PyObject_SetAttr H self key value of
        (Inl e, self', tr) \<Rightarrow> (Inl e, self', tr)
      | (Inr u, self', tr) \<Rightarrow>
          (case Atom_init_loop H self' rest of
             (r, self'', tr') \<Rightarrow> (r, self'', tr @ tr')))"

definition Atom_init :: "'h Host \<Rightarrow> 'h Atom \<Rightarrow> pyobj list \<Rightarrow> kwargs \<Rightarrow> 'h status" where
  "Atom_init H self args kw =
     (if length args > 0
      then (Inl (type_error ''__init__() takes no positional arguments''), self, [])
      else (case kw of
              None \<Rightarrow> (Inr (), self, [])
            | Some kwargs \<Rightarrow> Atom_init_loop H self kwargs))"

subsection \<open>The signal table\<close>

definition CmpLess :: "CSPair \<Rightarrow> pyobj \<Rightarrow> bool" where
  "CmpLess lhs rhs = (fst lhs < rhs)"

definition CmpEqual :: "CSPair \<Rightarrow> pyobj \<Rightarrow> bool" where
  "CmpEqual lhs rhs = (fst lhs = rhs)"

text \<open>
  \<^verbatim>\<open>std::lower_bound\<close>, as the standard library writes it: a binary search over the range
  of \<open>len\<close> elements that starts at \<open>first\<close>. From \<open>(0, length cbsets)\<close> every element it
  reads is inside the vector.
\<close>

function lower_bound :: "CSVector \<Rightarrow> nat \<Rightarrow> nat \<Rightarrow> pyobj \<Rightarrow> nat" where
  "lower_bound cbsets first len sig =
     (if len > 0
      then (if CmpLess (cbsets ! (first + len div 2)) sig
            then lower_bound cbsets (first + len div 2 + 1) (len - len div 2 - 1) sig
            else lower_bound cbsets first (len div 2) sig)
      else first)"
  by pat_completeness auto
termination
  by (relation "measure (\<lambda>(cbsets, first, len, sig). len)") auto

definition lowerBound :: "CSVector \<Rightarrow> pyobj \<Rightarrow> nat" where
  "lowerBound cbsets sig = lower_bound cbsets 0 (length cbsets) sig"

text \<open>An iterator is an index; \<^verbatim>\<open>end()\<close> is the length of the vector.\<close>

definition binaryFind :: "CSVector \<Rightarrow> pyobj \<Rightarrow> nat" where
  "binaryFind cbsets sig =
     (let it = lowerBound cbsets sig in
      if it \<noteq> length cbsets \<and> CmpEqual (cbsets ! it) sig then it else length cbsets)"

definition connect :: "'h Atom \<Rightarrow> pyobj \<Rightarrow> pyobj \<Rightarrow> 'h Atom" where
  "connect self sig callback =
     (let cbsets = (case m_cbsets self of None \<Rightarrow> [] | Some v \<Rightarrow> v);
          it = lowerBound cbsets sig in
      if it = length cbsets \<or> fst (cbsets ! it) \<noteq> sig
      then self\<lparr> m_cbsets :=
             Some (take it cbsets @ (sig, CallbackSet_new callback) # drop it cbsets) \<rparr>
      else self\<lparr> m_cbsets :=
             Some (cbsets[it := (fst (cbsets ! it), CallbackSet_add callback (snd (cbsets ! it)))]) \<rparr>)"

definition disconnect :: "'h Atom \<Rightarrow> 'h Atom" where
  "disconnect self =
     (case m_cbsets self of
        None \<Rightarrow> self
      | Some cbsets \<Rightarrow> self\<lparr> m_cbsets := Some [] \<rparr>)"

definition disconnect_sig :: "'h Atom \<Rightarrow> pyobj \<Rightarrow> 'h Atom" where
  "disconnect_sig self sig =
     (case m_cbsets self of
        None \<Rightarrow> self
      | Some cbsets \<Rightarrow>
          (let it = binaryFind cbsets sig in
           if it \<noteq> length cbsets
           then self\<lparr> m_cbsets := Some (take it cbsets @ drop (it + 1) cbsets) \<rparr>
           else self))"

definition disconnect_sig_cb :: "'h Host \<Rightarrow> 'h Atom \<Rightarrow> pyobj \<Rightarrow> pyobj \<Rightarrow> 'h Atom" where
  "disconnect_sig_cb H self sig callback =
     (case m_cbsets self of
        None \<Rightarrow> self
      | Some cbsets \<Rightarrow>
          (let it = binaryFind cbsets sig in
           if it \<noteq> length cbsets
           then self\<lparr> m_cbsets :=
                  Some (cbsets[it := (fst (cbsets ! it),
                                      CallbackSet_remove H callback (snd (cbsets ! it)))]) \<rparr>
           else self))"

text \<open>
  \<^verbatim>\<open>Atom::emit\<close> returns \<^verbatim>\<open>void\<close>: an exception that \<^verbatim>\<open>dispatch\<close> leaves set is not in its
  result, it stays set in the interpreter when \<^verbatim>\<open>emit\<close> returns. The model gives it next to
  the calls made.
\<close>

definition emit ::
  "'h Host \<Rightarrow> 'h Atom \<Rightarrow> pyobj \<Rightarrow> pyobj list \<Rightarrow> kwargs \<Rightarrow> failure option \<times> event list" where
  "emit H self sig args kw =
     (case m_cbsets self of
        None \<Rightarrow> (None, [])
      | Some cbsets \<Rightarrow>
          (let it = binaryFind cbsets sig in
           if it \<noteq> length cbsets
           then CallbackSet_dispatch H (snd (cbsets ! it)) args kw
           else (None, [])))"

subsection \<open>The methods\<close>

text \<open>
  \<^verbatim>\<open>PyArg_ParseTuple(args, "OO", ...)\<close> takes exactly two arguments and
  \<^verbatim>\<open>PyArg_ParseTuple(args, "|OO", ...)\<close> at most two; otherwise it sets a \<^verbatim>\<open>TypeError\<close> of
  the host's wording. A method that returns \<^verbatim>\<open>Py_None\<close> returns \<open>Inr ()\<close>.
\<close>

definition Atom_connect :: "'h Host \<Rightarrow> 'h Atom \<Rightarrow> pyobj list \<Rightarrow> 'h status" where
  "Atom_connect H self args =
     (case args of
        [sig, callback] \<Rightarrow>
          if \<not> Signal_TypeCheck H sig
          then (Inl (type_error_expected sig ''Signal''), self, [])
          else if \<not> PyCallable_Check H callback
          then (Inl (type_error_expected callback ''callable''), self, [])
          else (Inr (), connect self sig callback, [])
      | _ \<Rightarrow> (Inl (PyErr ''TypeError'' HostMessage), self, []))"

text \<open>
  With no argument \<^verbatim>\<open>sig\<close> and \<^verbatim>\<open>callback\<close> stay null, with one argument \<^verbatim>\<open>callback\<close> does;
  the source's tests on the two pointers are the cases on the number of arguments.
\<close>

definition Atom_disconnect :: "'h Host \<Rightarrow> 'h Atom \<Rightarrow> pyobj list \<Rightarrow> 'h status" where
  "Atom_disconnect H self args =
     (case args of
        [] \<Rightarrow> (Inr (), disconnect self, [])
      | [sig] \<Rightarrow>
          if \<not> Signal_TypeCheck H sig
          then (Inl (type_error_expected sig ''Signal''), self, [])
          else (Inr (), disconnect_sig self sig, [])
      | [sig, callback] \<Rightarrow>
          if \<not> Signal_TypeCheck H sig
          then (Inl (type_error_expected sig ''Signal''), self, [])
          else if \<not> PyCallable_Check H callback
          then (Inl (type_error_expected callback ''callable''), self, [])
          else (Inr (), disconnect_sig_cb H self sig callback, [])
      | _ \<Rightarrow> (Inl (PyErr ''TypeError'' HostMessage), self, []))"

text \<open>
  \<^verbatim>\<open>Atom_emit\<close> returns \<^verbatim>\<open>Py_None\<close> after \<^verbatim>\<open>self->emit(...)\<close> whatever the dispatch did. Its
  result has a fourth component: the exception that is still set when it returns a value
  (\<open>None\<close> when there is none). A call ends with an exception of a class when it returns
  \<^verbatim>\<open>NULL\<close> with it, or returns a value and leaves it set.
\<close>

type_synonym 'h emitted = "(failure + unit) \<times> 'h Atom \<times> event list \<times> failure option"

definition Atom_emit :: "'h Host \<Rightarrow> 'h Atom \<Rightarrow> pyobj list \<Rightarrow> kwargs \<Rightarrow> 'h emitted" where
  "Atom_emit H self args kw =
     (case args of
        [] \<Rightarrow> (Inl (type_error ''emit() takes at least 1 argument (0 given)''), self, [], None)
      | sig # rest \<Rightarrow>
          if \<not> Signal_TypeCheck H sig
          then (Inl (type_error_expected sig ''Signal''), self, [], None)
          else (case emit H self sig rest kw of
                  (pending, events) \<Rightarrow> (Inr (), self, events, pending)))"


subsection \<open>The life of an instance\<close>

text \<open>
  The calls an instance can receive between its construction and its teardown, and the
  state they leave, whatever they return.
\<close>

datatype call =
    GetAttr string
  | SetAttr string "pyobj option"
  | Init "pyobj list" kwargs
  | Connect "pyobj list"
  | Disconnect "pyobj list"
  | Emit "pyobj list" kwargs

fun step :: "'h Host \<Rightarrow> 'h Atom \<Rightarrow> call \<Rightarrow> 'h Atom" where
  "step H self (GetAttr name) = fst (snd (Atom_getattro H self name))"
| "step H self (SetAttr name value) = fst (snd (Atom_setattro H self name value))"
| "step H self (Init args kw) = fst (snd (Atom_init H self args kw))"
| "step H self (Connect args) = fst (snd (Atom_connect H self args))"
| "step H self (Disconnect args) = fst (snd (Atom_disconnect H self args))"
| "step H self (Emit args kw) = fst (snd (Atom_emit H self args kw))"

definition run :: "'h Host \<Rightarrow> 'h Atom \<Rightarrow> call list \<Rightarrow> 'h Atom" where
  "run H self calls = foldl (step H) self calls"

definition sorted_table :: "CSVector option \<Rightarrow> bool" where
  "sorted_table t = (case t of None \<Rightarrow> True | Some cbsets \<Rightarrow> sorted_wrt (<) (map fst cbsets))"

text \<open>
  The entry of a signal as the code looks it up (\<^verbatim>\<open>emit\<close> and the two \<^verbatim>\<open>disconnect\<close>
  overloads all go through \<^verbatim>\<open>binaryFind\<close>): the callback set found, or none.
\<close>

definition find_entry :: "'h Atom \<Rightarrow> pyobj \<Rightarrow> CallbackSet option" where
  "find_entry self sig =
     (case m_cbsets self of
        None \<Rightarrow> None
      | Some cbsets \<Rightarrow>
          (let it = binaryFind cbsets sig in
           if it \<noteq> length cbsets then Some (snd (cbsets ! it)) else None))"

text \<open>
  The calls that write a slot on the caller's request, and those that read it: a set or a
  delete of a member that has the slot's index, and an \<^verbatim>\<open>__init__\<close> with a keyword for such a
  member; a get of such a member. A slot is never explicitly set while no call of the first
  kind is made.
\<close>

definition names_slot :: "(string \<times> Member) list \<Rightarrow> nat \<Rightarrow> string \<Rightarrow> bool" where
  "names_slot members i name =
     (case map_of members name of None \<Rightarrow> False | Some member \<Rightarrow> index member = i)"

fun sets_slot :: "(string \<times> Member) list \<Rightarrow> nat \<Rightarrow> call \<Rightarrow> bool" where
  "sets_slot members i (SetAttr name value) = names_slot members i name"
| "sets_slot members i (Init args kw) =
     (case kw of None \<Rightarrow> False | Some kwargs \<Rightarrow> list_ex (names_slot members i) (map fst kwargs))"
| "sets_slot members i c = False"

fun gets_slot :: "(string \<times> Member) list \<Rightarrow> nat \<Rightarrow> call \<Rightarrow> bool" where
  "gets_slot members i (GetAttr name) = names_slot members i name"
| "gets_slot members i c = False"

text \<open>Whether the signal table holds an entry for a signal.\<close>

definition has_entry :: "'h Atom \<Rightarrow> pyobj \<Rightarrow> bool" where
  "has_entry self sig =
     (case m_cbsets self of None \<Rightarrow> False | Some cbsets \<Rightarrow> sig \<in> fst ` set cbsets)"

subsection \<open>A sample class\<close>

text \<open>
  The spec's sample scenario: a class \<^verbatim>\<open>Point\<close> with integer members \<^verbatim>\<open>x\<close> and \<^verbatim>\<open>y\<close> of default
  \<open>0\<close>. Here a value below \<open>100\<close> is valid and is stored incremented by \<open>1000\<close>, so that the
  validated value differs from the raw one. Objects below \<open>10\<close> are signals and objects from
  \<open>20\<close> are callable; the instances have no generic attributes. The callbacks of \<open>host0\<close>
  return; those of \<open>host_raising\<close> raise a \<^verbatim>\<open>TypeError\<close>.
\<close>

definition int_member :: "nat \<Rightarrow> Member" where
  "int_member i =
     \<lparr> index = i,
       validate = (\<lambda>vals name v.
         if v < 100 then Inr (v + 1000) else Inl (PyErr ''ValidationError'' HostMessage)),
       defaultValue = (\<lambda>vals name. Inr 0) \<rparr>"

definition failing_member :: "nat \<Rightarrow> Member" where
  "failing_member i =
     \<lparr> index = i,
       validate = (\<lambda>vals name v. Inr v),
       defaultValue = (\<lambda>vals name. Inl (PyErr ''ValueError'' HostMessage)) \<rparr>"

definition host0 :: "unit Host" where
  "host0 =
     \<lparr> Signal_TypeCheck = (\<lambda>ob. ob < 10),
       PyCallable_Check = (\<lambda>ob. 20 \<le> ob),
       PyObject_GenericGetAttr = (\<lambda>h name. Inl (PyErr ''AttributeError'' HostMessage)),
       PyObject_GenericSetAttr = (\<lambda>h name v. Inl (PyErr ''AttributeError'' HostMessage)),
       tp_alloc = (\<lambda>t n. Some ()),
       PyObject_Call = (\<lambda>cb args kw. Inr 0),
       CallbackSet_remove = remove1 \<rparr>"


definition Point_members :: "(string \<times> Member) list" where
  "Point_members = [(''x'', int_member 0), (''y'', int_member 1)]"

definition point :: "unit Atom" where
  "point = \<lparr> m_values = [None, None], m_cbsets = None, m_members = Point_members,
             ob_host = () \<rparr>"

definition gadget :: "unit Atom" where
  "gadget = \<lparr> m_values = [None], m_cbsets = None, m_members = [(''z'', failing_member 0)],
              ob_host = () \<rparr>"

definition registry0 :: "pytype \<rightharpoonup> (string \<times> Member) list" where
  "registry0 = RegisterMembers Map.empty 5 Point_members"

section \<open>Binary search\<close>

declare lower_bound.simps [simp del]

lemma lower_bound_range:
  "first \<le> lower_bound v first len sig \<and> lower_bound v first len sig \<le> first + len"
proof (induction v first len sig rule: lower_bound.induct)
  case (1 v first len sig)
  show ?case
  proof (cases "len > 0")
    case False
    then have "lower_bound v first len sig = first" by (subst lower_bound.simps) simp
    then show ?thesis by simp
  next
    case pos: True
    show ?thesis
    proof (cases "CmpLess (v ! (first + len div 2)) sig")
      case True
      with pos 1(1) show ?thesis
        by (simp add: lower_bound.simps [of v first len sig])
    next
      case False
      have "len div 2 \<le> len" by simp
      with False pos 1(2) show ?thesis
        by (simp add: lower_bound.simps [of v first len sig]) linarith
    qed
  qed
qed

lemma lowerBound_le: "lowerBound v sig \<le> length v"
  using lower_bound_range [of 0 v "length v" sig] by (simp add: lowerBound_def)

lemma sorted_keys_mono:
  fixes v :: CSVector
  assumes "sorted_wrt (<) (map fst v)" "i \<le> j" "j < length v"
  shows "fst (v ! i) \<le> fst (v ! j)"
proof (cases "i = j")
  case True
  then show ?thesis by simp
next
  case False
  with assms have "i < j" by simp
  with assms have "map fst v ! i < map fst v ! j"
    by (intro sorted_wrt_nth_less) simp_all
  with assms show ?thesis by simp
qed

lemma lower_bound_partition:
  assumes "sorted_wrt (<) (map fst v)"
      and "first + len \<le> length v"
      and "\<forall>i<first. fst (v ! i) < sig"
      and "\<forall>i. first + len \<le> i \<and> i < length v \<longrightarrow> sig \<le> fst (v ! i)"
  shows "(\<forall>i<lower_bound v first len sig. fst (v ! i) < sig) \<and>
         (\<forall>i. lower_bound v first len sig \<le> i \<and> i < length v \<longrightarrow> sig \<le> fst (v ! i))"
  using assms
proof (induction v first len sig rule: lower_bound.induct)
  case (1 v first len sig)
  show ?case
  proof (cases "len > 0")
    case False
    then have "lower_bound v first len sig = first" by (subst lower_bound.simps) simp
    with False 1(4-6) show ?thesis by simp
  next
    case pos: True
    let ?m = "first + len div 2"
    from pos 1(4) have m: "?m < length v" by simp
    show ?thesis
    proof (cases "CmpLess (v ! ?m) sig")
      case True
      then have lt: "fst (v ! ?m) < sig" by (simp add: CmpLess_def)
      have below: "\<forall>i<?m + 1. fst (v ! i) < sig"
      proof (intro allI impI)
        fix i assume "i < ?m + 1"
        then have "i \<le> ?m" by simp
        from sorted_keys_mono [OF 1(3) this m] lt show "fst (v ! i) < sig" by simp
      qed
      have "?m + 1 + (len - len div 2 - 1) = first + len" using pos by simp
      with 1(4,6) have rng: "?m + 1 + (len - len div 2 - 1) \<le> length v"
        and above: "\<forall>i. ?m + 1 + (len - len div 2 - 1) \<le> i \<and> i < length v \<longrightarrow> sig \<le> fst (v ! i)"
        by simp_all
      from 1(1) [OF pos True 1(3) rng below above] pos True show ?thesis
        by (simp add: lower_bound.simps [of v first len sig])
    next
      case False
      then have ge: "sig \<le> fst (v ! ?m)" by (simp add: CmpLess_def)
      have above: "\<forall>i. first + len div 2 \<le> i \<and> i < length v \<longrightarrow> sig \<le> fst (v ! i)"
      proof (intro allI impI)
        fix i assume "first + len div 2 \<le> i \<and> i < length v"
        then have "fst (v ! ?m) \<le> fst (v ! i)" using sorted_keys_mono [OF 1(3)] by simp
        with ge show "sig \<le> fst (v ! i)" by simp
      qed
      from 1(4) have rng: "first + len div 2 \<le> length v" by simp
      from 1(2) [OF pos False 1(3) rng 1(5) above] pos False show ?thesis
        by (simp add: lower_bound.simps [of v first len sig])
    qed
  qed
qed

lemma lowerBound_partition:
  assumes "sorted_wrt (<) (map fst v)"
  shows "(\<forall>i<lowerBound v sig. fst (v ! i) < sig) \<and>
         (\<forall>i. lowerBound v sig \<le> i \<and> i < length v \<longrightarrow> sig \<le> fst (v ! i))"
  using lower_bound_partition [of v 0 "length v" sig] assms by (simp add: lowerBound_def)

lemma binaryFind_found:
  "binaryFind v sig \<noteq> length v \<Longrightarrow>
     binaryFind v sig < length v \<and> fst (v ! binaryFind v sig) = sig"
  using lowerBound_le [of v sig]
  by (auto simp: binaryFind_def Let_def CmpEqual_def split: if_splits)

lemma binaryFind_absent:
  assumes "sig \<notin> fst ` set v"
  shows "binaryFind v sig = length v"
proof (rule ccontr)
  assume "binaryFind v sig \<noteq> length v"
  from binaryFind_found [OF this] have "v ! binaryFind v sig \<in> set v" "fst (v ! binaryFind v sig) = sig"
    by simp_all
  then have "sig \<in> fst ` set v" by (metis imageI)
  with assms show False by simp
qed

lemma binaryFind_present:
  assumes "sorted_wrt (<) (map fst v)" "sig \<in> fst ` set v"
  shows "binaryFind v sig \<noteq> length v"
proof -
  from assms(2) obtain j where j: "j < length v" "fst (v ! j) = sig"
    by (auto simp: in_set_conv_nth)
  let ?r = "lowerBound v sig"
  note p = lowerBound_partition [OF assms(1), of sig]
  have "?r \<le> j" using p j by (metis not_le_imp_less order_less_irrefl)
  then have r: "?r < length v" using j by simp
  have "fst (v ! ?r) \<le> sig" using sorted_keys_mono [OF assms(1) \<open>?r \<le> j\<close> j(1)] j by simp
  moreover have "sig \<le> fst (v ! ?r)" using p r by simp
  ultimately have "fst (v ! ?r) = sig" by simp
  with r show ?thesis by (simp add: binaryFind_def Let_def CmpEqual_def)
qed

lemma binaryFind_iff:
  "sorted_wrt (<) (map fst v) \<Longrightarrow> (binaryFind v sig \<noteq> length v) = (sig \<in> fst ` set v)"
  using binaryFind_present binaryFind_absent by blast

section \<open>The signal table stays sorted\<close>

lemma lowerBound_miss:
  assumes "lowerBound v sig = length v \<or> fst (v ! lowerBound v sig) \<noteq> sig"
  shows "binaryFind v sig = length v"
  using assms by (auto simp: binaryFind_def Let_def CmpEqual_def)

lemma take_lowerBound_less:
  assumes "sorted_wrt (<) (map fst v)" "x \<in> set (take (lowerBound v sig) v)"
  shows "fst x < sig"
proof -
  from assms(2) obtain i where "i < length (take (lowerBound v sig) v)"
    "take (lowerBound v sig) v ! i = x" by (auto simp: in_set_conv_nth)
  then have "i < lowerBound v sig" "v ! i = x" by simp_all
  with lowerBound_partition [OF assms(1), of sig] show ?thesis by auto
qed

lemma drop_lowerBound_ge:
  assumes "sorted_wrt (<) (map fst v)" "x \<in> set (drop (lowerBound v sig) v)"
  shows "sig \<le> fst x"
proof -
  from assms(2) obtain i where "i < length (drop (lowerBound v sig) v)"
    "drop (lowerBound v sig) v ! i = x" by (auto simp: in_set_conv_nth)
  then have "lowerBound v sig + i < length v" "v ! (lowerBound v sig + i) = x" by simp_all
  with lowerBound_partition [OF assms(1), of sig] show ?thesis by auto
qed

lemma insert_sorted:
  assumes s: "sorted_wrt (<) (map fst v)"
      and miss: "lowerBound v sig = length v \<or> fst (v ! lowerBound v sig) \<noteq> sig"
  shows "sorted_wrt (<) (map fst (take (lowerBound v sig) v @ (sig, c) # drop (lowerBound v sig) v))"
proof -
  let ?r = "lowerBound v sig"
  have absent: "sig \<notin> fst ` set v"
    using binaryFind_iff [OF s, of sig] lowerBound_miss [OF miss] by simp
  have lo: "\<forall>x\<in>set (take ?r v). fst x < sig" using take_lowerBound_less [OF s] by blast
  have hi: "\<forall>x\<in>set (drop ?r v). sig < fst x"
  proof
    fix x assume x: "x \<in> set (drop ?r v)"
    then have "x \<in> set v" by (rule in_set_dropD)
    with absent have "fst x \<noteq> sig" by auto
    with drop_lowerBound_ge [OF s x] show "sig < fst x" by simp
  qed
  from s have "sorted_wrt (<) (map fst (take ?r v @ drop ?r v))" by simp
  then have parts: "sorted_wrt (<) (map fst (take ?r v))" "sorted_wrt (<) (map fst (drop ?r v))"
    unfolding map_append sorted_wrt_append by simp_all
  show ?thesis
    unfolding map_append list.map sorted_wrt_append sorted_wrt.simps
    using parts lo hi by fastforce
qed

lemma update_keys:
  assumes "fst (v ! i) = k"
  shows "map fst (v[i := (k, c)]) = map fst v"
proof (cases "i < length v")
  case True
  with assms show ?thesis by (simp add: map_update list_update_same_conv)
next
  case False
  then have "length v \<le> i" by simp
  then have "v[i := (k, c)] = v" by (rule list_update_beyond)
  then show ?thesis by simp
qed

lemma erase_sorted:
  assumes "sorted_wrt (<) (map fst v)"
  shows "sorted_wrt (<) (map fst (take i v @ drop (i + 1) v))"
proof -
  from assms have "sorted_wrt (<) (map fst (take i v @ drop i v))" by simp
  moreover have "set (drop (i + 1) v) \<subseteq> set (drop i v)" by (simp add: set_drop_subset_set_drop)
  moreover have "sorted_wrt (<) (map fst (drop i v)) \<Longrightarrow> sorted_wrt (<) (map fst (drop (i + 1) v))"
    by (metis drop_map sorted_wrt_drop add.commute drop_drop)
  ultimately show ?thesis
    unfolding map_append sorted_wrt_append by auto
qed

lemma connect_sorted:
  "sorted_table (m_cbsets self) \<Longrightarrow> sorted_table (m_cbsets (connect self sig cb))"
  using insert_sorted [of "the (m_cbsets self)" sig]
  by (auto simp: sorted_table_def connect_def Let_def update_keys split: option.splits)

lemma disconnect_sorted:
  "sorted_table (m_cbsets self) \<Longrightarrow> sorted_table (m_cbsets (disconnect self))"
  by (auto simp: sorted_table_def disconnect_def split: option.splits)

lemma disconnect_sig_sorted:
  "sorted_table (m_cbsets self) \<Longrightarrow> sorted_table (m_cbsets (disconnect_sig self sig))"
  using erase_sorted
  by (auto simp: sorted_table_def disconnect_sig_def Let_def split: option.splits)

lemma disconnect_sig_cb_sorted:
  "sorted_table (m_cbsets self) \<Longrightarrow> sorted_table (m_cbsets (disconnect_sig_cb H self sig cb))"
  by (auto simp: sorted_table_def disconnect_sig_cb_def Let_def update_keys split: option.splits)

section \<open>What each call leaves alone\<close>

lemma getattro_frame:
  "length (m_values (fst (snd (Atom_getattro H self name)))) = length (m_values self) \<and>
   m_cbsets (fst (snd (Atom_getattro H self name))) = m_cbsets self \<and>
   m_members (fst (snd (Atom_getattro H self name))) = m_members self"
  by (simp add: Atom_getattro_def split: option.splits sum.splits)

lemma setattro_frame:
  "length (m_values (fst (snd (Atom_setattro H self name value)))) = length (m_values self) \<and>
   m_cbsets (fst (snd (Atom_setattro H self name value))) = m_cbsets self \<and>
   m_members (fst (snd (Atom_setattro H self name value))) = m_members self"
  by (simp add: Atom_setattro_def split: option.splits sum.splits)

lemma init_loop_frame:
  "length (m_values (fst (snd (Atom_init_loop H self kwargs)))) = length (m_values self) \<and>
   m_cbsets (fst (snd (Atom_init_loop H self kwargs))) = m_cbsets self \<and>
   m_members (fst (snd (Atom_init_loop H self kwargs))) = m_members self"
proof (induction kwargs arbitrary: self)
  case Nil
  show ?case by simp
next
  case (Cons kv rest)
  obtain key v where kv: "kv = (key, v)" by (cases kv)
  obtain r self' tr where s: "Atom_setattro H self key (Some v) = (r, self', tr)"
    by (cases "Atom_setattro H self key (Some v)")
  from setattro_frame [of H self key "Some v"] s
  have f: "length (m_values self') = length (m_values self)" "m_cbsets self' = m_cbsets self"
    "m_members self' = m_members self" by simp_all
  show ?case
  proof (cases r)
    case (Inl e)
    with kv s f show ?thesis by (simp add: PyObject_SetAttr_def)
  next
    case (Inr u)
    obtain r2 self2 tr2 where l: "Atom_init_loop H self' rest = (r2, self2, tr2)"
      by (cases "Atom_init_loop H self' rest")
    with Cons.IH [of self'] f kv s Inr show ?thesis by (simp add: PyObject_SetAttr_def)
  qed
qed

lemma init_frame:
  "length (m_values (fst (snd (Atom_init H self args kw)))) = length (m_values self) \<and>
   m_cbsets (fst (snd (Atom_init H self args kw))) = m_cbsets self \<and>
   m_members (fst (snd (Atom_init H self args kw))) = m_members self"
  by (simp add: Atom_init_def init_loop_frame split: option.splits)

lemma connect_frame:
  "m_values (connect self sig cb) = m_values self \<and>
   m_members (connect self sig cb) = m_members self"
  by (simp add: connect_def Let_def)

lemma disconnect_frame:
  "m_values (disconnect self) = m_values self \<and> m_members (disconnect self) = m_members self"
  by (simp add: disconnect_def split: option.splits)

lemma disconnect_sig_frame:
  "m_values (disconnect_sig self sig) = m_values self \<and>
   m_members (disconnect_sig self sig) = m_members self"
  by (simp add: disconnect_sig_def Let_def split: option.splits)

lemma disconnect_sig_cb_frame:
  "m_values (disconnect_sig_cb H self sig cb) = m_values self \<and>
   m_members (disconnect_sig_cb H self sig cb) = m_members self"
  by (simp add: disconnect_sig_cb_def Let_def split: option.splits)

lemma Atom_connect_frame:
  "m_values (fst (snd (Atom_connect H self args))) = m_values self \<and>
   m_members (fst (snd (Atom_connect H self args))) = m_members self"
  by (simp add: Atom_connect_def connect_frame split: list.splits)

lemma Atom_disconnect_frame:
  "m_values (fst (snd (Atom_disconnect H self args))) = m_values self \<and>
   m_members (fst (snd (Atom_disconnect H self args))) = m_members self"
  by (simp add: Atom_disconnect_def Let_def disconnect_frame disconnect_sig_frame
      disconnect_sig_cb_frame split: list.splits option.splits)

lemma Atom_emit_frame: "fst (snd (Atom_emit H self args kw)) = self"
  by (simp add: Atom_emit_def split: list.splits prod.splits)

lemma Atom_connect_sorted:
  "sorted_table (m_cbsets self) \<Longrightarrow> sorted_table (m_cbsets (fst (snd (Atom_connect H self args))))"
  by (simp add: Atom_connect_def connect_sorted split: list.splits)

lemma Atom_disconnect_sorted:
  "sorted_table (m_cbsets self) \<Longrightarrow>
     sorted_table (m_cbsets (fst (snd (Atom_disconnect H self args))))"
  by (simp add: Atom_disconnect_def Let_def disconnect_sorted disconnect_sig_sorted
      disconnect_sig_cb_sorted split: list.splits option.splits)

lemma step_length: "length (m_values (step H self c)) = length (m_values self)"
  by (cases c) (simp_all add: getattro_frame setattro_frame init_frame Atom_connect_frame
      Atom_disconnect_frame Atom_emit_frame)

lemma step_members: "m_members (step H self c) = m_members self"
  by (cases c) (simp_all add: getattro_frame setattro_frame init_frame Atom_connect_frame
      Atom_disconnect_frame Atom_emit_frame)

lemma step_sorted: "sorted_table (m_cbsets self) \<Longrightarrow> sorted_table (m_cbsets (step H self c))"
  by (cases c) (simp_all add: getattro_frame setattro_frame init_frame Atom_connect_sorted
      Atom_disconnect_sorted Atom_emit_frame)

lemma run_length: "length (m_values (run H self calls)) = length (m_values self)"
  unfolding run_def by (induction calls arbitrary: self) (simp_all add: step_length)

lemma run_members: "m_members (run H self calls) = m_members self"
  unfolding run_def by (induction calls arbitrary: self) (simp_all add: step_members)

lemma run_sorted: "sorted_table (m_cbsets self) \<Longrightarrow> sorted_table (m_cbsets (run H self calls))"
  unfolding run_def by (induction calls arbitrary: self) (simp_all add: step_sorted)

section \<open>A slot once filled\<close>

lemma getattro_keeps_slot:
  assumes "m_values self ! i = Some v"
  shows "m_values (fst (snd (Atom_getattro H self name))) ! i = Some v"
proof (cases "map_of (m_members self) name")
  case None
  with assms show ?thesis by (simp add: Atom_getattro_def)
next
  case (Some member)
  show ?thesis
  proof (cases "index member = i")
    case True
    with Some assms show ?thesis by (simp add: Atom_getattro_def)
  next
    case False
    with Some assms show ?thesis
      by (simp add: Atom_getattro_def split: option.splits sum.splits)
  qed
qed

lemma setattro_other_slot:
  assumes "\<not> names_slot (m_members self) i name"
  shows "m_values (fst (snd (Atom_setattro H self name value))) ! i = m_values self ! i"
  using assms
  by (auto simp: Atom_setattro_def names_slot_def split: option.splits sum.splits)

lemma getattro_other_slot:
  assumes "\<not> names_slot (m_members self) i name"
  shows "m_values (fst (snd (Atom_getattro H self name))) ! i = m_values self ! i"
  using assms
  by (auto simp: Atom_getattro_def names_slot_def split: option.splits sum.splits)

lemma init_loop_other_slot:
  assumes "\<not> list_ex (names_slot (m_members self) i) (map fst kwargs)"
  shows "m_values (fst (snd (Atom_init_loop H self kwargs))) ! i = m_values self ! i"
  using assms
proof (induction kwargs arbitrary: self)
  case Nil
  show ?case by simp
next
  case (Cons kv rest)
  obtain k w where kv: "kv = (k, w)" by (cases kv)
  obtain r self' tr where s: "Atom_setattro H self k (Some w) = (r, self', tr)"
    by (cases "Atom_setattro H self k (Some w)")
  from Cons.prems kv have nk: "\<not> names_slot (m_members self) i k"
    and nr: "\<not> list_ex (names_slot (m_members self) i) (map fst rest)" by simp_all
  from setattro_other_slot [OF nk, of H "Some w"] s
  have v: "m_values self' ! i = m_values self ! i" by simp
  from setattro_frame [of H self k "Some w"] s have m: "m_members self' = m_members self"
    by simp
  show ?case
  proof (cases r)
    case (Inl e)
    with kv s v show ?thesis by (simp add: PyObject_SetAttr_def)
  next
    case (Inr u)
    obtain r2 self2 tr2 where l: "Atom_init_loop H self' rest = (r2, self2, tr2)"
      by (cases "Atom_init_loop H self' rest")
    from Cons.IH [of self'] nr m l have "m_values self2 ! i = m_values self' ! i" by simp
    with kv s l Inr v show ?thesis by (simp add: PyObject_SetAttr_def)
  qed
qed

lemma step_unset_slot:
  assumes "m_values self ! i = None"
      and "\<not> sets_slot (m_members self) i c" "\<not> gets_slot (m_members self) i c"
  shows "m_values (step H self c) ! i = None"
proof (cases c)
  case (GetAttr name)
  with assms show ?thesis by (simp add: getattro_other_slot)
next
  case (SetAttr name v)
  with assms show ?thesis by (simp add: setattro_other_slot)
next
  case (Init args kw)
  with assms show ?thesis
    by (auto simp: Atom_init_def init_loop_other_slot split: option.splits)
next
  case (Connect args)
  with assms show ?thesis by (simp add: Atom_connect_frame)
next
  case (Disconnect args)
  with assms show ?thesis by (simp add: Atom_disconnect_frame)
next
  case (Emit args kw)
  with assms show ?thesis by (simp add: Atom_emit_frame)
qed

lemma step_filled_slot:
  assumes "m_values self ! i = Some d" and "\<not> sets_slot (m_members self) i c"
  shows "m_values (step H self c) ! i = Some d"
proof (cases c)
  case (GetAttr name)
  with assms show ?thesis by (simp add: getattro_keeps_slot)
next
  case (SetAttr name v)
  with assms show ?thesis by (simp add: setattro_other_slot)
next
  case (Init args kw)
  with assms show ?thesis
    by (auto simp: Atom_init_def init_loop_other_slot split: option.splits)
next
  case (Connect args)
  with assms show ?thesis by (simp add: Atom_connect_frame)
next
  case (Disconnect args)
  with assms show ?thesis by (simp add: Atom_disconnect_frame)
next
  case (Emit args kw)
  with assms show ?thesis by (simp add: Atom_emit_frame)
qed

lemma run_unset_slot:
  "m_values self ! i = None \<Longrightarrow>
   \<forall>c\<in>set calls. \<not> sets_slot (m_members self) i c \<and> \<not> gets_slot (m_members self) i c \<Longrightarrow>
   m_values (run H self calls) ! i = None"
  unfolding run_def
  by (induction calls arbitrary: self) (simp_all add: step_unset_slot step_members)

lemma run_filled_slot:
  "m_values self ! i = Some d \<Longrightarrow>
   \<forall>c\<in>set calls. \<not> sets_slot (m_members self) i c \<Longrightarrow>
   m_values (run H self calls) ! i = Some d"
  unfolding run_def
  by (induction calls arbitrary: self) (simp_all add: step_filled_slot step_members)

lemma Atom_new_unset:
  assumes "Atom_new H registry type args kw = Inr self" "i < length (m_values self)"
  shows "m_values self ! i = None"
  using assms by (auto simp: Atom_new_def Let_def split: sum.splits option.splits)

section \<open>The entries of the signal table\<close>

lemma find_entry_absent: "\<not> has_entry self sig \<Longrightarrow> find_entry self sig = None"
  by (auto simp: has_entry_def find_entry_def Let_def binaryFind_absent split: option.splits)

lemma emit_find_entry:
  "emit H self sig args kw =
     (case find_entry self sig of
        None \<Rightarrow> (None, [])
      | Some cbs \<Rightarrow> CallbackSet_dispatch H cbs args kw)"
  by (simp add: emit_def find_entry_def Let_def split: option.splits)

lemma sorted_keys_distinct:
  fixes v :: CSVector
  shows "sorted_wrt (<) (map fst v) \<Longrightarrow> distinct (map fst v)"
  by (simp add: strict_sorted_iff)

lemma binaryFind_map_of:
  fixes v :: CSVector
  assumes "sorted_wrt (<) (map fst v)"
  shows "(if binaryFind v sig \<noteq> length v then Some (snd (v ! binaryFind v sig)) else None)
           = map_of v sig"
proof (cases "sig \<in> fst ` set v")
  case False
  then have "map_of v sig = None" by (simp add: map_of_eq_None_iff)
  with False show ?thesis by (simp add: binaryFind_absent)
next
  case True
  with assms have ne: "binaryFind v sig \<noteq> length v" by (simp add: binaryFind_iff)
  from binaryFind_found [OF ne] have "v ! binaryFind v sig \<in> set v"
    and k: "fst (v ! binaryFind v sig) = sig" by simp_all
  then have "(sig, snd (v ! binaryFind v sig)) \<in> set v" by (metis prod.collapse)
  with sorted_keys_distinct [OF assms] have "map_of v sig = Some (snd (v ! binaryFind v sig))"
    by simp
  with ne show ?thesis by simp
qed

lemma find_entry_map_of:
  assumes "sorted_table (m_cbsets self)"
  shows "find_entry self sig = (case m_cbsets self of None \<Rightarrow> None | Some v \<Rightarrow> map_of v sig)"
proof (cases "m_cbsets self")
  case None
  then show ?thesis by (simp add: find_entry_def)
next
  case (Some v)
  with assms have "sorted_wrt (<) (map fst v)" by (simp add: sorted_table_def)
  from binaryFind_map_of [OF this, of sig] Some show ?thesis
    by (simp add: find_entry_def Let_def)
qed

lemma map_of_insert:
  assumes "sig \<notin> fst ` set v"
  shows "map_of (take r v @ (sig, c) # drop r v) = (map_of v)(sig \<mapsto> c)"
proof
  fix k
  have "map_of v = map_of (take r v @ drop r v)" by simp
  then have v: "map_of v k = (map_of (drop r v) ++ map_of (take r v)) k"
    by (simp only: map_of_append)
  from assms have "sig \<notin> fst ` set (take r v)" by (auto dest: in_set_takeD)
  then have t: "map_of (take r v) sig = None" by (simp add: map_of_eq_None_iff)
  show "map_of (take r v @ (sig, c) # drop r v) k = ((map_of v)(sig \<mapsto> c)) k"
  proof (cases "k = sig")
    case True
    with t show ?thesis by (simp add: map_add_def)
  next
    case False
    then show ?thesis by (simp add: v map_add_def split: option.splits)
  qed
qed

lemma map_of_update:
  assumes "distinct (map fst v)" "i < length v" "fst (v ! i) = sig"
  shows "map_of (v[i := (sig, c)]) = (map_of v)(sig \<mapsto> c)"
proof
  fix k
  have keys: "map fst (v[i := (sig, c)]) = map fst v" using assms(3) by (rule update_keys)
  with assms(1) have d: "distinct (map fst (v[i := (sig, c)]))" by simp
  show "map_of (v[i := (sig, c)]) k = ((map_of v)(sig \<mapsto> c)) k"
  proof (cases "k = sig")
    case True
    from assms(2) have "(sig, c) \<in> set (v[i := (sig, c)])" by (simp add: set_update_memI)
    with d True show ?thesis by simp
  next
    case False
    show ?thesis
    proof (cases "map_of v k")
      case None
      then have "k \<notin> fst ` set v" by (simp add: map_of_eq_None_iff)
      then have "k \<notin> set (map fst (v[i := (sig, c)]))" using keys by simp
      then have "map_of (v[i := (sig, c)]) k = None" by (simp add: map_of_eq_None_iff)
      with None False show ?thesis by simp
    next
      case (Some y)
      then have m: "(k, y) \<in> set v" by (rule map_of_SomeD)
      then obtain j where j: "j < length v" "v ! j = (k, y)" by (auto simp: in_set_conv_nth)
      with False assms(3) have "j \<noteq> i" by auto
      with j have "v[i := (sig, c)] ! j = (k, y)" "j < length (v[i := (sig, c)])" by simp_all
      then have "(k, y) \<in> set (v[i := (sig, c)])" by (metis nth_mem)
      with d have "map_of (v[i := (sig, c)]) k = Some y" by simp
      with Some False show ?thesis by simp
    qed
  qed
qed

lemma connect_table:
  assumes "sorted_table (m_cbsets self)"
  shows "\<exists>v'. m_cbsets (connect self sig cb) = Some v' \<and>
          map_of v' =
            (case m_cbsets self of None \<Rightarrow> Map.empty | Some v \<Rightarrow> map_of v)
              (sig \<mapsto> (case find_entry self sig of None \<Rightarrow> [cb] | Some cbs \<Rightarrow> cbs @ [cb]))"
proof -
  define v where "v = (case m_cbsets self of None \<Rightarrow> [] | Some v \<Rightarrow> v)"
  have s: "sorted_wrt (<) (map fst v)"
    using assms by (simp add: v_def sorted_table_def split: option.splits)
  have m: "(case m_cbsets self of None \<Rightarrow> Map.empty | Some v \<Rightarrow> map_of v) = map_of v"
    by (simp add: v_def split: option.splits)
  have f: "find_entry self sig = map_of v sig"
    using find_entry_map_of [OF assms, of sig] by (simp add: v_def split: option.splits)
  let ?r = "lowerBound v sig"
  show ?thesis
  proof (cases "?r = length v \<or> fst (v ! ?r) \<noteq> sig")
    case True
    then have "binaryFind v sig = length v" by (rule lowerBound_miss)
    with s have absent: "sig \<notin> fst ` set v" using binaryFind_iff [of v sig] by simp
    then have n: "map_of v sig = None" by (simp add: map_of_eq_None_iff)
    from True have "m_cbsets (connect self sig cb) = Some (take ?r v @ (sig, [cb]) # drop ?r v)"
      by (auto simp: connect_def v_def Let_def CallbackSet_new_def)
    with map_of_insert [OF absent, of ?r "[cb]"] show ?thesis by (simp add: m f n)
  next
    case False
    then have r: "?r < length v" "fst (v ! ?r) = sig" using lowerBound_le [of v sig] by auto
    then have "(sig, snd (v ! ?r)) \<in> set v" by (metis nth_mem prod.collapse)
    with sorted_keys_distinct [OF s] have e: "map_of v sig = Some (snd (v ! ?r))" by simp
    from False have "m_cbsets (connect self sig cb) = Some (v[?r := (sig, snd (v ! ?r) @ [cb])])"
      by (auto simp: connect_def v_def Let_def CallbackSet_add_def)
    with map_of_update [OF sorted_keys_distinct [OF s] r, of "snd (v ! ?r) @ [cb]"]
    show ?thesis by (simp add: m f e)
  qed
qed

lemma connect_find_entry:
  assumes "sorted_table (m_cbsets self)"
  shows "find_entry (connect self sig cb) s =
           (if s = sig
            then Some (case find_entry self sig of None \<Rightarrow> [cb] | Some cbs \<Rightarrow> cbs @ [cb])
            else find_entry self s)"
proof -
  from connect_table [OF assms, of sig cb] obtain v' where
    v': "m_cbsets (connect self sig cb) = Some v'"
    "map_of v' = (case m_cbsets self of None \<Rightarrow> Map.empty | Some v \<Rightarrow> map_of v)
              (sig \<mapsto> (case find_entry self sig of None \<Rightarrow> [cb] | Some cbs \<Rightarrow> cbs @ [cb]))"
    by blast
  have "find_entry (connect self sig cb) s = map_of v' s"
    using find_entry_map_of [OF connect_sorted [OF assms], of sig cb s] v' by simp
  then show ?thesis
    using v'(2) find_entry_map_of [OF assms, of s] by (simp split: option.splits)
qed

section \<open>Emitting and disconnecting\<close>


lemma disconnect_no_entry: "find_entry (disconnect self) sig = None"
proof -
  have "\<not> has_entry (disconnect self) sig"
    by (simp add: has_entry_def disconnect_def split: option.splits)
  then show ?thesis by (rule find_entry_absent)
qed

section \<open>The sample host and a new instance\<close>

lemma host0_sel:
  "Signal_TypeCheck host0 ob = (ob < 10)"
  "PyCallable_Check host0 ob = (20 \<le> ob)"
  "PyObject_Call host0 cb args kw = Inr 0"
  "CallbackSet_remove host0 = remove1"
  "tp_alloc host0 t n = Some ()"
  "PyObject_GenericGetAttr host0 h name = Inl (PyErr ''AttributeError'' HostMessage)"
  "PyObject_GenericSetAttr host0 h name v = Inl (PyErr ''AttributeError'' HostMessage)"
  by (simp_all add: host0_def)

lemma Atom_new_fresh:
  "Atom_new H registry type args kw = Inr self \<Longrightarrow> m_cbsets self = None"
  by (auto simp: Atom_new_def Let_def split: sum.splits option.splits)


section \<open>Initialisation from keyword arguments\<close>

lemma setattro_trace:
  "snd (snd (Atom_setattro H self key (Some v))) =
     [case map_of (m_members self) key of
        Some member \<Rightarrow> Validate_called key v
      | None \<Rightarrow> GenericSetAttr_called key (Some v)]"
  by (simp add: Atom_setattro_def split: option.splits sum.splits)

lemma setattro_invalid:
  assumes "map_of (m_members self) key = Some member"
      and "isl (validate member (m_values self) key v)"
  shows "isl (fst (Atom_setattro H self key (Some v)))"
  using assms by (auto simp: Atom_setattro_def isl_def)

lemma init_loop_events:
  assumes "fst (Atom_init_loop H self kwargs) = Inr ()"
      and "(key, v) \<in> set kwargs"
  shows "(case map_of (m_members self) key of
            Some member \<Rightarrow> Validate_called key v
          | None \<Rightarrow> GenericSetAttr_called key (Some v))
         \<in> set (snd (snd (Atom_init_loop H self kwargs)))"
  using assms
proof (induction kwargs arbitrary: self)
  case Nil
  then show ?case by simp
next
  case (Cons kv rest)
  obtain k w where kv: "kv = (k, w)" by (cases kv)
  obtain r self' tr where s: "Atom_setattro H self k (Some w) = (r, self', tr)"
    by (cases "Atom_setattro H self k (Some w)")
  obtain r2 self2 tr2 where l: "Atom_init_loop H self' rest = (r2, self2, tr2)"
    by (cases "Atom_init_loop H self' rest")
  from Cons.prems(1) kv s have r: "r = Inr ()"
    by (cases r) (simp_all add: PyObject_SetAttr_def)
  with Cons.prems(1) kv s l have r2: "r2 = Inr ()" by (simp add: PyObject_SetAttr_def)
  from kv s l r have tr: "snd (snd (Atom_init_loop H self (kv # rest))) = tr @ tr2"
    by (simp add: PyObject_SetAttr_def)
  from setattro_frame [of H self k "Some w"] s have m: "m_members self' = m_members self"
    by simp
  from setattro_trace [of H self k w] s
  have tr1: "tr = [case map_of (m_members self) k of
        Some member \<Rightarrow> Validate_called k w
      | None \<Rightarrow> GenericSetAttr_called k (Some w)]" by simp
  show ?case
  proof (cases "(key, v) = (k, w)")
    case True
    then have "key = k" "v = w" by simp_all
    with tr tr1 show ?thesis by (simp split: option.splits)
  next
    case False
    with Cons.prems(2) kv have "(key, v) \<in> set rest" by auto
    from Cons.IH [of self'] l r2 this m tr show ?thesis by simp
  qed
qed

lemma init_loop_invalid:
  assumes "(key, v) \<in> set kwargs"
      and "map_of (m_members self) key = Some member"
      and "\<forall>vals. isl (validate member vals key v)"
  shows "isl (fst (Atom_init_loop H self kwargs))"
  using assms
proof (induction kwargs arbitrary: self)
  case Nil
  then show ?case by simp
next
  case (Cons kv rest)
  obtain k w where kv: "kv = (k, w)" by (cases kv)
  obtain r self' tr where s: "Atom_setattro H self k (Some w) = (r, self', tr)"
    by (cases "Atom_setattro H self k (Some w)")
  obtain r2 self2 tr2 where l: "Atom_init_loop H self' rest = (r2, self2, tr2)"
    by (cases "Atom_init_loop H self' rest")
  from setattro_frame [of H self k "Some w"] s have m: "m_members self' = m_members self"
    by simp
  show ?case
  proof (cases r)
    case (Inl e)
    with kv s show ?thesis by (simp add: PyObject_SetAttr_def)
  next
    case (Inr u)
    have "(key, v) \<noteq> (k, w)"
    proof
      assume "(key, v) = (k, w)"
      with Cons.prems(2,3) have "isl (fst (Atom_setattro H self k (Some w)))"
        by (auto intro: setattro_invalid)
      with s Inr show False by simp
    qed
    with Cons.prems(1) kv have "(key, v) \<in> set rest" by auto
    from Cons.IH [OF this, of self'] Cons.prems(2,3) m l
    have "isl r2" by simp
    with kv s l Inr show ?thesis by (simp add: PyObject_SetAttr_def)
  qed
qed

section \<open>The claims\<close>

subsection \<open>Attribute set\<close>

text \<open>
  Claim C1. For a registered member whose index is a slot of the instance, \<^verbatim>\<open>set\<close> calls the
  member's \<^verbatim>\<open>validate\<close> first. When it fails, the error is returned to the caller and the
  instance is left as it was, so the get that follows returns the prior value or, for an
  unset slot, what \<^verbatim>\<open>defaultValue\<close> gives. When it succeeds, the validated value (not the
  raw one) replaces the slot's content, and the get that follows returns it.
\<close>

theorem Atom_setattro_validate_before_write:
  assumes "map_of (m_members self) name = Some member"
      and "index member < length (m_values self)"
  shows "case validate member (m_values self) name v of
           Inl e \<Rightarrow>
             Atom_setattro H self name (Some v) = (Inl e, self, [Validate_called name v]) \<and>
             fst (Atom_getattro H (fst (snd (Atom_setattro H self name (Some v)))) name) =
               (case m_values self ! index member of
                  Some prior \<Rightarrow> Inr prior
                | None \<Rightarrow> defaultValue member (m_values self) name)
         | Inr valptr \<Rightarrow>
             Atom_setattro H self name (Some v) =
               (Inr (), self\<lparr> m_values := (m_values self)[index member := Some valptr] \<rparr>,
                [Validate_called name v]) \<and>
             Atom_getattro H (fst (snd (Atom_setattro H self name (Some v)))) name =
               (Inr valptr, fst (snd (Atom_setattro H self name (Some v))), [])"
  using assms
  by (auto simp: Atom_setattro_def Atom_getattro_def split: sum.splits option.splits)

theorem Atom_setattro_validate_before_write_witness:
  "map_of (m_members point) ''x'' = Some (int_member 0) \<and>
   index (int_member 0) < length (m_values point) \<and>
   Atom_setattro host0 point ''x'' (Some 200) =
     (Inl (PyErr ''ValidationError'' HostMessage), point, [Validate_called ''x'' 200]) \<and>
   fst (Atom_getattro host0 point ''x'') = Inr 0 \<and>
   Atom_setattro host0 point ''x'' (Some 5) =
     (Inr (), point\<lparr> m_values := [Some 1005, None] \<rparr>, [Validate_called ''x'' 5]) \<and>
   fst (Atom_getattro host0 (point\<lparr> m_values := [Some 1005, None] \<rparr>) ''x'') = Inr 1005"
  using Atom_setattro_validate_before_write
          [where self = point and name = "''x''" and member = "int_member 0" and v = 200
             and H = host0]
        Atom_setattro_validate_before_write
          [where self = point and name = "''x''" and member = "int_member 0" and v = 5
             and H = host0]
  by (auto simp: point_def Point_members_def int_member_def)

text \<open>
  Claim C8. For a registered member whose index is a slot of the instance, \<^verbatim>\<open>set\<close> with no
  value clears the slot and returns success, and asks nothing of the member (no call of
  \<^verbatim>\<open>validate\<close>). The get that follows calls \<^verbatim>\<open>defaultValue\<close> again: it returns and stores
  the default, or returns the error of the default computation.
\<close>

theorem Atom_setattro_delete:
  assumes "map_of (m_members self) name = Some member"
      and "index member < length (m_values self)"
  shows "Atom_setattro H self name None =
           (Inr (), self\<lparr> m_values := (m_values self)[index member := None] \<rparr>, []) \<and>
         m_values (fst (snd (Atom_setattro H self name None))) ! index member = None \<and>
         Atom_getattro H (fst (snd (Atom_setattro H self name None))) name =
           (case defaultValue member ((m_values self)[index member := None]) name of
              Inl e \<Rightarrow>
                (Inl e, fst (snd (Atom_setattro H self name None)), [DefaultValue_called name])
            | Inr d \<Rightarrow>
                (Inr d, self\<lparr> m_values := (m_values self)[index member := Some d] \<rparr>,
                 [DefaultValue_called name]))"
  using assms
  by (auto simp: Atom_setattro_def Atom_getattro_def split: sum.splits option.splits)

theorem Atom_setattro_delete_witness:
  "map_of (m_members (point\<lparr> m_values := [Some 1005, None] \<rparr>)) ''x'' = Some (int_member 0) \<and>
   index (int_member 0) < length (m_values (point\<lparr> m_values := [Some 1005, None] \<rparr>)) \<and>
   Atom_setattro host0 (point\<lparr> m_values := [Some 1005, None] \<rparr>) ''x'' None =
     (Inr (), point, []) \<and>
   Atom_getattro host0 point ''x'' =
     (Inr 0, point\<lparr> m_values := [Some 0, None] \<rparr>, [DefaultValue_called ''x''])"
proof -
  let ?p = "point\<lparr> m_values := [Some 1005, None] \<rparr>"
  have h1: "map_of (m_members ?p) ''x'' = Some (int_member 0)"
    by (simp add: point_def Point_members_def)
  have h2: "index (int_member 0) < length (m_values ?p)"
    by (simp add: point_def int_member_def)
  from Atom_setattro_delete [OF h1 h2, of host0] h1 h2 show ?thesis
    by (auto simp: point_def Point_members_def int_member_def)
qed

subsection \<open>Attribute get\<close>

text \<open>
  Against claim C2 as stated: the member \<^verbatim>\<open>z\<close> of the sample instance \<open>gadget\<close> has a default
  computation that fails. The first get calls it, returns its error and stores nothing; the
  second get calls it again. The default computation has run twice for one slot that was
  never set.
\<close>

theorem Atom_getattro_default_repeats:
  "Atom_getattro host0 gadget ''z'' =
     (Inl (PyErr ''ValueError'' HostMessage), gadget, [DefaultValue_called ''z'']) \<and>
   m_values (fst (snd (Atom_getattro host0 gadget ''z''))) ! 0 = None \<and>
   Atom_getattro host0 (fst (snd (Atom_getattro host0 gadget ''z''))) ''z'' =
     (Inl (PyErr ''ValueError'' HostMessage), gadget, [DefaultValue_called ''z''])"
  by (simp add: Atom_getattro_def gadget_def failing_member_def)

text \<open>
  Claim C2, amended. Take an instance as constructed and a registered member whose slot
  has never been explicitly set (nor read). The first get calls \<^verbatim>\<open>defaultValue\<close> once. When
  the computation succeeds its result is stored in the slot and returned, and every
  subsequent get, after any calls that still do not explicitly set the slot, returns that
  stored value and calls nothing: a default computation that succeeds runs at most once for
  the slot. When it fails, the error is returned and nothing is stored.
\<close>

theorem Atom_getattro_default_once:
  assumes new: "Atom_new H registry type args kw = Inr self"
      and reg: "map_of (m_members self) name = Some member"
      and idx: "index member < length (m_values self)"
      and before: "\<forall>c\<in>set before. \<not> sets_slot (m_members self) (index member) c \<and>
                     \<not> gets_slot (m_members self) (index member) c"
      and after: "\<forall>c\<in>set after. \<not> sets_slot (m_members self) (index member) c"
  shows "case defaultValue member (m_values (run H self before)) name of
           Inl e \<Rightarrow>
             Atom_getattro H (run H self before) name =
               (Inl e, run H self before, [DefaultValue_called name])
         | Inr d \<Rightarrow>
             Atom_getattro H (run H self before) name =
               (Inr d,
                (run H self before)
                  \<lparr> m_values := (m_values (run H self before))[index member := Some d] \<rparr>,
                [DefaultValue_called name]) \<and>
             Atom_getattro H
               (run H (fst (snd (Atom_getattro H (run H self before) name))) after) name =
               (Inr d, run H (fst (snd (Atom_getattro H (run H self before) name))) after, [])"
proof -
  let ?s = "run H self before"
  have m: "m_members ?s = m_members self" by (rule run_members)
  have l: "length (m_values ?s) = length (m_values self)" by (rule run_length)
  from new idx have "m_values self ! index member = None" by (rule Atom_new_unset)
  then have unset: "m_values ?s ! index member = None"
    using before by (rule run_unset_slot)
  show ?thesis
  proof (cases "defaultValue member (m_values ?s) name")
    case (Inl e)
    with reg idx m l unset show ?thesis by (simp add: Atom_getattro_def)
  next
    case (Inr d)
    let ?t = "?s\<lparr> m_values := (m_values ?s)[index member := Some d] \<rparr>"
    from reg idx m l unset Inr
    have first: "Atom_getattro H ?s name = (Inr d, ?t, [DefaultValue_called name])"
      by (simp add: Atom_getattro_def)
    let ?u = "run H ?t after"
    from idx l have filled: "m_values ?t ! index member = Some d" by simp
    have mt: "m_members ?t = m_members self" using m by simp
    from after mt have later: "\<forall>c\<in>set after. \<not> sets_slot (m_members ?t) (index member) c"
      by simp
    from filled later have slot: "m_values ?u ! index member = Some d"
      by (rule run_filled_slot)
    have "m_members ?u = m_members self" using mt by (simp add: run_members)
    moreover have "length (m_values ?u) = length (m_values self)" using l by (simp add: run_length)
    ultimately have "Atom_getattro H ?u name = (Inr d, ?u, [])"
      using reg idx slot by (simp add: Atom_getattro_def)
    with first Inr show ?thesis by simp
  qed
qed

theorem Atom_getattro_default_once_witness:
  "Atom_new host0 registry0 5 [] None = Inr point \<and>
   map_of (m_members point) ''x'' = Some (int_member 0) \<and>
   index (int_member 0) < length (m_values point) \<and>
   list_all
     (\<lambda>c. \<not> sets_slot (m_members point) (index (int_member 0)) c \<and>
          \<not> gets_slot (m_members point) (index (int_member 0)) c)
     [GetAttr ''y'', SetAttr ''y'' (Some 6), Connect [3, 20]] \<and>
   list_all (\<lambda>c. \<not> sets_slot (m_members point) (index (int_member 0)) c)
     [SetAttr ''y'' None, GetAttr ''x'', Init [] (Some [(''y'', 7)]), Emit [3] None] \<and>
   Atom_getattro host0
     (run host0 point [GetAttr ''y'', SetAttr ''y'' (Some 6), Connect [3, 20]]) ''x'' =
     (Inr 0,
      (run host0 point [GetAttr ''y'', SetAttr ''y'' (Some 6), Connect [3, 20]])
        \<lparr> m_values :=
            (m_values (run host0 point [GetAttr ''y'', SetAttr ''y'' (Some 6), Connect [3, 20]]))
              [index (int_member 0) := Some 0] \<rparr>,
      [DefaultValue_called ''x'']) \<and>
   fst (Atom_getattro host0
     (run host0
        (fst (snd (Atom_getattro host0
           (run host0 point [GetAttr ''y'', SetAttr ''y'' (Some 6), Connect [3, 20]]) ''x'')))
        [SetAttr ''y'' None, GetAttr ''x'', Init [] (Some [(''y'', 7)]), Emit [3] None])
     ''x'') = Inr 0 \<and>
   snd (snd (Atom_getattro host0
     (run host0
        (fst (snd (Atom_getattro host0
           (run host0 point [GetAttr ''y'', SetAttr ''y'' (Some 6), Connect [3, 20]]) ''x'')))
        [SetAttr ''y'' None, GetAttr ''x'', Init [] (Some [(''y'', 7)]), Emit [3] None])
     ''x'')) = []"
proof -
  let ?before = "[GetAttr ''y'', SetAttr ''y'' (Some 6), Connect [3, 20]]"
  let ?after = "[SetAttr ''y'' None, GetAttr ''x'', Init [] (Some [(''y'', 7)]), Emit [3] None]"
  have sz: "PyDict_Size Point_members = 2"
    by (simp add: PyDict_Size_def Point_members_def)
  have r: "registry0 5 = Some Point_members"
    by (simp add: registry0_def RegisterMembers_def)
  have h0: "Atom_new host0 registry0 5 [] None = Inr point"
    by (simp add: Atom_new_def LookupMembers_def r sz host0_sel point_def numeral_2_eq_2)
  have h1: "map_of (m_members point) ''x'' = Some (int_member 0)"
    by (simp add: point_def Point_members_def)
  have h2: "index (int_member 0) < length (m_values point)"
    by (simp add: point_def int_member_def)
  have h3: "\<forall>c\<in>set ?before.
      \<not> sets_slot (m_members point) (index (int_member 0)) c \<and>
      \<not> gets_slot (m_members point) (index (int_member 0)) c"
    by (simp add: names_slot_def point_def Point_members_def int_member_def)
  have h4: "\<forall>c\<in>set ?after. \<not> sets_slot (m_members point) (index (int_member 0)) c"
    by (simp add: names_slot_def point_def Point_members_def int_member_def)
  have d: "defaultValue (int_member 0) vals ''x'' = Inr 0" for vals
    by (simp add: int_member_def)
  note t = Atom_getattro_default_once [OF h0 h1 h2 h3 h4, unfolded d sum.case]
  from t have a: "Atom_getattro host0 (run host0 point ?before) ''x'' =
     (Inr 0,
      (run host0 point ?before)
        \<lparr> m_values := (m_values (run host0 point ?before))[index (int_member 0) := Some 0] \<rparr>,
      [DefaultValue_called ''x''])"
    by (rule conjunct1)
  from t have b: "Atom_getattro host0
     (run host0 (fst (snd (Atom_getattro host0 (run host0 point ?before) ''x''))) ?after) ''x'' =
     (Inr 0,
      run host0 (fst (snd (Atom_getattro host0 (run host0 point ?before) ''x''))) ?after, [])"
    by (rule conjunct2)
  from b have b1: "fst (Atom_getattro host0
     (run host0 (fst (snd (Atom_getattro host0 (run host0 point ?before) ''x''))) ?after) ''x'')
       = Inr 0"
    and b2: "snd (snd (Atom_getattro host0
     (run host0 (fst (snd (Atom_getattro host0 (run host0 point ?before) ''x''))) ?after) ''x''))
       = []"
    by simp_all
  from h3 have h3': "list_all
     (\<lambda>c. \<not> sets_slot (m_members point) (index (int_member 0)) c \<and>
          \<not> gets_slot (m_members point) (index (int_member 0)) c) ?before"
    by (simp only: list_all_iff)
  from h4 have h4': "list_all
     (\<lambda>c. \<not> sets_slot (m_members point) (index (int_member 0)) c) ?after"
    by (simp only: list_all_iff)
  from h0 h1 h2 h3' h4' a b1 b2 show ?thesis by (intro conjI)
qed

subsection \<open>Construction and the registry\<close>

text \<open>
  Claim C3. An instance that \<^verbatim>\<open>Atom_new\<close> constructs for a class with registered members
  has as many slots as the class's member dict has entries, whatever positional and keyword
  arguments are passed, and it has that many slots after every sequence of calls.
\<close>

theorem Atom_new_slot_count:
  assumes "registry type = Some members"
      and "Atom_new H registry type args kw = Inr self"
  shows "length (m_values self) = PyDict_Size members \<and>
         (\<forall>calls. length (m_values (run H self calls)) = PyDict_Size members) \<and>
         (\<forall>args' kw'. Atom_new H registry type args' kw' = Inr self)"
  using assms
  by (auto simp: Atom_new_def LookupMembers_def Let_def run_length split: option.splits)

theorem Atom_new_slot_count_witness:
  "registry0 5 = Some Point_members \<and>
   Atom_new host0 registry0 5 [] (Some [(''y'', 7)]) = Inr point \<and>
   PyDict_Size Point_members = 2 \<and>
   length (m_values point) = 2 \<and>
   length (m_values (run host0 point [Init [] (Some [(''y'', 7)]), GetAttr ''x''])) = 2"
proof -
  have sz: "PyDict_Size Point_members = 2"
    by (simp add: PyDict_Size_def Point_members_def)
  have h1: "registry0 5 = Some Point_members"
    by (simp add: registry0_def RegisterMembers_def)
  have h2: "Atom_new host0 registry0 5 [] (Some [(''y'', 7)]) = Inr point"
    by (simp add: Atom_new_def LookupMembers_def h1 sz host0_def point_def numeral_2_eq_2)
  from Atom_new_slot_count [OF h1 h2] h1 h2 sz show ?thesis by simp
qed

text \<open>
  Against claim C4 as stated: for a class with no registry entry \<^verbatim>\<open>LookupMembers\<close> sets a
  \<^verbatim>\<open>TypeError\<close> whose message is "type has no registered members"; it is not an error of a
  class of its own, and the message is not "class has no registered members".
\<close>

theorem LookupMembers_raises_TypeError:
  "LookupMembers Map.empty (0::nat) =
     Inl (PyErr ''TypeError'' (Message ''type has no registered members'')) \<and>
   LookupMembers Map.empty (0::nat) \<noteq>
     Inl (PyErr ''ConfigurationError'' (Message ''class has no registered members'')) \<and>
   \<not> raises ''ConfigurationError'' (LookupMembers Map.empty (0::nat))"
  by (simp add: LookupMembers_def type_error_def)

text \<open>
  Claim C4, amended. For a class with no entry in the member registry, \<^verbatim>\<open>LookupMembers\<close>
  fails with a \<^verbatim>\<open>TypeError\<close> ("type has no registered members"), and the construction of an
  instance of that class fails with the same error.
\<close>

theorem LookupMembers_unregistered:
  assumes "registry type = None"
  shows "LookupMembers registry type = Inl (type_error ''type has no registered members'') \<and>
         raises ''TypeError'' (LookupMembers registry type) \<and>
         Atom_new H registry type args kw = Inl (type_error ''type has no registered members'')"
  using assms by (simp add: LookupMembers_def Atom_new_def type_error_def)

theorem LookupMembers_unregistered_witness:
  "registry0 6 = None \<and>
   LookupMembers registry0 6 = Inl (type_error ''type has no registered members'') \<and>
   raises ''TypeError'' (LookupMembers registry0 6) \<and>
   Atom_new host0 registry0 6 [] None = Inl (type_error ''type has no registered members'')"
proof -
  have h: "registry0 6 = None" by (simp add: registry0_def RegisterMembers_def)
  from LookupMembers_unregistered [where registry = registry0 and type = 6 and H = host0 and args = "[]" and kw = None, OF h] h show ?thesis by (auto simp: type_error_def)
qed

subsection \<open>Signals\<close>




text \<open>
  Claim C7. In whatever state a sequence of calls has left the instance, \<^verbatim>\<open>disconnect\<close>
  with no arguments succeeds and leaves a signal table in which no signal has an entry
  (the table is emptied, or was never created); an \<^verbatim>\<open>emit\<close> that follows, of any signal
  and with any arguments, calls no callback and leaves no exception of a callback set.
\<close>

theorem Atom_disconnect_all:
  "Atom_disconnect H (run H self calls) [] = (Inr (), disconnect (run H self calls), []) \<and>
   (m_cbsets (disconnect (run H self calls)) = None \<or>
    m_cbsets (disconnect (run H self calls)) = Some []) \<and>
   (\<forall>sig. find_entry (disconnect (run H self calls)) sig = None) \<and>
   (\<forall>args kw. snd (snd (Atom_emit H (disconnect (run H self calls)) args kw)) = ([], None))"
proof (intro conjI allI)
  show "Atom_disconnect H (run H self calls) [] = (Inr (), disconnect (run H self calls), [])"
    by (simp add: Atom_disconnect_def)
  show "m_cbsets (disconnect (run H self calls)) = None \<or>
        m_cbsets (disconnect (run H self calls)) = Some []"
    by (simp add: disconnect_def split: option.splits)
  show "find_entry (disconnect (run H self calls)) sig = None" for sig
    by (rule disconnect_no_entry)
  show "snd (snd (Atom_emit H (disconnect (run H self calls)) args kw)) = ([], None)"
    for args kw
    by (simp add: Atom_emit_def emit_find_entry disconnect_no_entry split: list.splits)
qed

theorem Atom_disconnect_all_witness:
  "m_cbsets (run host0 point [Connect [3, 20], Connect [2, 21]]) = Some [(2, [21]), (3, [20])] \<and>
   Atom_emit host0 (run host0 point [Connect [3, 20], Connect [2, 21]]) [3] None =
     (Inr (), run host0 point [Connect [3, 20], Connect [2, 21]], [Callback_called 20 [] None],
      None) \<and>
   m_cbsets (disconnect (run host0 point [Connect [3, 20], Connect [2, 21]])) = Some [] \<and>
   snd (snd (Atom_emit host0 (disconnect (run host0 point [Connect [3, 20], Connect [2, 21]]))
     [3] None)) = ([], None) \<and>
   snd (snd (Atom_emit host0 (disconnect (run host0 point [Connect [3, 20], Connect [2, 21]]))
     [2] None)) = ([], None)"
proof -
  have t: "m_cbsets (run host0 point [Connect [3, 20], Connect [2, 21]]) =
             Some [(2, [21]), (3, [20])]"
    by (simp add: run_def Atom_connect_def connect_def host0_sel point_def lowerBound_def
        lower_bound.simps CmpLess_def Let_def CallbackSet_new_def)
  have e: "Atom_emit host0 (run host0 point [Connect [3, 20], Connect [2, 21]]) [3] None =
     (Inr (), run host0 point [Connect [3, 20], Connect [2, 21]], [Callback_called 20 [] None],
      None)"
    by (simp add: Atom_emit_def emit_def t binaryFind_def lowerBound_def
        lower_bound.simps CmpLess_def CmpEqual_def Let_def host0_sel)
  from Atom_disconnect_all [of host0 point "[Connect [3, 20], Connect [2, 21]]"] t e
  show ?thesis by (auto simp: disconnect_def)
qed

text \<open>
  Claim C6. On an instance whose signal table is sorted (as it is in every state an
  instance can reach, see C9), \<^verbatim>\<open>connect(signal, callback)\<close> raises a \<^verbatim>\<open>TypeError\<close> and
  changes nothing when the signal is not a signal or the callback is not callable.
  Otherwise it succeeds: a signal that had no entry gets one whose callback set holds the
  callback alone, and a signal that had one has the callback appended to its set; the
  entries of the other signals are as before. Nothing is deduplicated: after connecting
  the same callback a second time the set ends with two registrations of it.
\<close>

theorem Atom_connect_entry:
  assumes "sorted_table (m_cbsets self)"
  shows "(\<not> Signal_TypeCheck H sig \<or> \<not> PyCallable_Check H cb \<longrightarrow>
            raises ''TypeError'' (fst (Atom_connect H self [sig, cb])) \<and>
            fst (snd (Atom_connect H self [sig, cb])) = self) \<and>
         (Signal_TypeCheck H sig \<and> PyCallable_Check H cb \<longrightarrow>
            Atom_connect H self [sig, cb] = (Inr (), connect self sig cb, []) \<and>
            find_entry (connect self sig cb) sig =
              Some (case find_entry self sig of None \<Rightarrow> [cb] | Some cbs \<Rightarrow> cbs @ [cb]) \<and>
            (\<forall>s. s \<noteq> sig \<longrightarrow> find_entry (connect self sig cb) s = find_entry self s) \<and>
            Atom_connect H (connect self sig cb) [sig, cb] =
              (Inr (), connect (connect self sig cb) sig cb, []) \<and>
            find_entry (connect (connect self sig cb) sig cb) sig =
              Some ((case find_entry self sig of None \<Rightarrow> [] | Some cbs \<Rightarrow> cbs) @ [cb, cb]))"
proof (intro conjI impI)
  assume "\<not> Signal_TypeCheck H sig \<or> \<not> PyCallable_Check H cb"
  then show "raises ''TypeError'' (fst (Atom_connect H self [sig, cb]))"
    and "fst (snd (Atom_connect H self [sig, cb])) = self"
    by (auto simp: Atom_connect_def type_error_expected_def)
next
  assume ok: "Signal_TypeCheck H sig \<and> PyCallable_Check H cb"
  then show "Atom_connect H self [sig, cb] = (Inr (), connect self sig cb, [])"
    and "Atom_connect H (connect self sig cb) [sig, cb] =
           (Inr (), connect (connect self sig cb) sig cb, [])"
    by (simp_all add: Atom_connect_def)
  show "find_entry (connect self sig cb) sig =
          Some (case find_entry self sig of None \<Rightarrow> [cb] | Some cbs \<Rightarrow> cbs @ [cb])"
    by (simp add: connect_find_entry [OF assms])
  show "\<forall>s. s \<noteq> sig \<longrightarrow> find_entry (connect self sig cb) s = find_entry self s"
    by (simp add: connect_find_entry [OF assms])
  show "find_entry (connect (connect self sig cb) sig cb) sig =
          Some ((case find_entry self sig of None \<Rightarrow> [] | Some cbs \<Rightarrow> cbs) @ [cb, cb])"
    by (simp add: connect_find_entry [OF connect_sorted [OF assms]]
        connect_find_entry [OF assms] split: option.splits)
qed

theorem Atom_connect_entry_witness:
  "sorted_table (m_cbsets point) \<and>
   raises ''TypeError'' (fst (Atom_connect host0 point [30, 20])) \<and>
   raises ''TypeError'' (fst (Atom_connect host0 point [3, 11])) \<and>
   Signal_TypeCheck host0 3 \<and> PyCallable_Check host0 20 \<and>
   find_entry point 3 = None \<and>
   find_entry (connect point 3 20) 3 = Some [20] \<and>
   find_entry (connect (connect point 3 20) 3 20) 3 = Some [20, 20]"
proof -
  have s: "sorted_table (m_cbsets point)" by (simp add: sorted_table_def point_def)
  have n: "find_entry point 3 = None" by (simp add: find_entry_def point_def)
  have h: "\<not> Signal_TypeCheck host0 30" "\<not> PyCallable_Check host0 11"
    "Signal_TypeCheck host0 3" "PyCallable_Check host0 20"
    by (simp_all add: host0_sel)
  from Atom_connect_entry [OF s, of host0 30 20] Atom_connect_entry [OF s, of host0 3 11]
    Atom_connect_entry [OF s, of host0 3 20] s n h
  show ?thesis by simp
qed

text \<open>
  Claim C9. An instance is constructed without a signal table, and after every sequence
  of calls (connects and disconnects of every form among them) its table, if it has one,
  is strictly sorted by the address of the signal, so it has at most one entry for a
  signal, and \<^verbatim>\<open>binaryFind\<close> finds an entry exactly for the signals that have one, at the
  index of that signal's entry.
\<close>

theorem signal_table_sorted:
  assumes "Atom_new H registry type args kw = Inr self"
  shows "case m_cbsets (run H self calls) of
           None \<Rightarrow> True
         | Some cbsets \<Rightarrow>
             sorted_wrt (<) (map fst cbsets) \<and> distinct (map fst cbsets) \<and>
             (\<forall>sig. (binaryFind cbsets sig \<noteq> length cbsets) = (sig \<in> fst ` set cbsets)) \<and>
             (\<forall>sig. binaryFind cbsets sig \<noteq> length cbsets \<longrightarrow>
                      binaryFind cbsets sig < length cbsets \<and>
                      fst (cbsets ! binaryFind cbsets sig) = sig)"
proof (cases "m_cbsets (run H self calls)")
  case None
  then show ?thesis by simp
next
  case (Some cbsets)
  from assms have "sorted_table (m_cbsets self)"
    by (simp add: Atom_new_fresh sorted_table_def)
  then have "sorted_table (m_cbsets (run H self calls))" by (rule run_sorted)
  with Some have s: "sorted_wrt (<) (map fst cbsets)" by (simp add: sorted_table_def)
  then have "distinct (map fst cbsets)" by (rule sorted_keys_distinct)
  moreover have "(binaryFind cbsets sig \<noteq> length cbsets) = (sig \<in> fst ` set cbsets)" for sig
    using s by (rule binaryFind_iff)
  moreover have "binaryFind cbsets sig \<noteq> length cbsets \<longrightarrow>
      binaryFind cbsets sig < length cbsets \<and> fst (cbsets ! binaryFind cbsets sig) = sig" for sig
    using binaryFind_found [of cbsets sig] by blast
  ultimately show ?thesis using Some s by simp
qed

theorem signal_table_sorted_witness:
  "Atom_new host0 registry0 5 [] None = Inr point \<and>
   m_cbsets (run host0 point
     [Connect [3, 20], Connect [2, 21], Connect [3, 22], Connect [4, 23], Disconnect [2],
      Disconnect [3, 20]]) = Some [(3, [22]), (4, [23])] \<and>
   sorted_wrt (<) (map fst [(3::nat, [22::nat]), (4, [23])]) \<and>
   (binaryFind [(3, [22]), (4, [23])] 2 \<noteq> length [(3::nat, [22::nat]), (4, [23])]) =
     (2 \<in> fst ` set [(3::nat, [22::nat]), (4, [23])])"
proof -
  let ?calls = "[Connect [3, 20], Connect [2, 21], Connect [3, 22], Connect [4, 23],
    Disconnect [2], Disconnect [3, 20]]"
  have sz: "PyDict_Size Point_members = 2"
    by (simp add: PyDict_Size_def Point_members_def)
  have r: "registry0 5 = Some Point_members"
    by (simp add: registry0_def RegisterMembers_def)
  have h: "Atom_new host0 registry0 5 [] None = Inr point"
    by (simp add: Atom_new_def LookupMembers_def r sz host0_sel point_def numeral_2_eq_2)
  note ev = Atom_connect_def Atom_disconnect_def connect_def disconnect_sig_def
    disconnect_sig_cb_def host0_sel binaryFind_def lowerBound_def lower_bound.simps
    CmpLess_def CmpEqual_def Let_def CallbackSet_new_def CallbackSet_add_def
  have c1: "step host0 point (Connect [3, 20]) = point\<lparr> m_cbsets := Some [(3, [20])] \<rparr>"
    by (simp add: ev point_def)
  have c2: "step host0 (point\<lparr> m_cbsets := Some [(3, [20])] \<rparr>) (Connect [2, 21]) =
              point\<lparr> m_cbsets := Some [(2, [21]), (3, [20])] \<rparr>"
    by (simp add: ev point_def)
  have c3: "step host0 (point\<lparr> m_cbsets := Some [(2, [21]), (3, [20])] \<rparr>) (Connect [3, 22]) =
              point\<lparr> m_cbsets := Some [(2, [21]), (3, [20, 22])] \<rparr>"
    by (simp add: ev point_def)
  have c4: "step host0 (point\<lparr> m_cbsets := Some [(2, [21]), (3, [20, 22])] \<rparr>) (Connect [4, 23]) =
              point\<lparr> m_cbsets := Some [(2, [21]), (3, [20, 22]), (4, [23])] \<rparr>"
    by (simp add: ev point_def)
  have c5: "step host0 (point\<lparr> m_cbsets := Some [(2, [21]), (3, [20, 22]), (4, [23])] \<rparr>)
              (Disconnect [2]) = point\<lparr> m_cbsets := Some [(3, [20, 22]), (4, [23])] \<rparr>"
    by (simp add: ev point_def)
  have c6: "step host0 (point\<lparr> m_cbsets := Some [(3, [20, 22]), (4, [23])] \<rparr>)
              (Disconnect [3, 20]) = point\<lparr> m_cbsets := Some [(3, [22]), (4, [23])] \<rparr>"
    by (simp add: ev point_def)
  have t: "m_cbsets (run host0 point ?calls) = Some [(3, [22]), (4, [23])]"
    by (simp add: run_def c1 c2 c3 c4 c5 c6 del: step.simps)
  from signal_table_sorted [OF h, of ?calls]
  have "sorted_wrt (<) (map fst [(3::nat, [22::nat]), (4, [23])]) \<and>
        distinct (map fst [(3::nat, [22::nat]), (4, [23])]) \<and>
        (\<forall>sig. (binaryFind [(3, [22]), (4, [23])] sig \<noteq> length [(3::nat, [22::nat]), (4, [23])])
              = (sig \<in> fst ` set [(3::nat, [22::nat]), (4, [23])])) \<and>
        (\<forall>sig. binaryFind [(3, [22]), (4, [23])] sig \<noteq> length [(3::nat, [22::nat]), (4, [23])] \<longrightarrow>
              binaryFind [(3, [22]), (4, [23])] sig < length [(3::nat, [22::nat]), (4, [23])] \<and>
              fst ([(3::nat, [22::nat]), (4, [23])] ! binaryFind [(3, [22]), (4, [23])] sig) = sig)"
    unfolding t option.case .
  then have "sorted_wrt (<) (map fst [(3::nat, [22::nat]), (4, [23])])"
    and "(binaryFind [(3, [22]), (4, [23])] 2 \<noteq> length [(3::nat, [22::nat]), (4, [23])]) =
     (2 \<in> fst ` set [(3::nat, [22::nat]), (4, [23])])"
    by blast+
  with h t show ?thesis by blast
qed

subsection \<open>Initialisation\<close>

text \<open>
  Claim C10. \<^verbatim>\<open>__init__\<close> raises a \<^verbatim>\<open>TypeError\<close> when it is given a positional argument.
  Otherwise it sets the keyword arguments one after the other through \<^verbatim>\<open>Atom_setattro\<close>
  and stops at the first one that fails, with its error. So when initialisation succeeds,
  \<^verbatim>\<open>validate\<close> was called for every keyword that names a registered member (and the generic
  set for every other keyword); and a keyword value that the member's \<^verbatim>\<open>validate\<close>
  rejects makes initialisation fail.
\<close>

theorem Atom_init_kwargs:
  "(args \<noteq> [] \<longrightarrow>
      Atom_init H self args kw =
        (Inl (type_error ''__init__() takes no positional arguments''), self, [])) \<and>
   Atom_init H self [] None = (Inr (), self, []) \<and>
   Atom_init H self [] (Some []) = (Inr (), self, []) \<and>
   Atom_init H self [] (Some ((key, v) # rest)) =
     (case Atom_setattro H self key (Some v) of
        (Inl e, self', tr) \<Rightarrow> (Inl e, self', tr)
      | (Inr u, self', tr) \<Rightarrow>
          (case Atom_init H self' [] (Some rest) of (r, self'', tr') \<Rightarrow> (r, self'', tr @ tr'))) \<and>
   (\<forall>kwargs k w. kw = Some kwargs \<and> (k, w) \<in> set kwargs \<and>
        fst (Atom_init H self [] kw) = Inr () \<longrightarrow>
      (case map_of (m_members self) k of
         Some member \<Rightarrow> Validate_called k w
       | None \<Rightarrow> GenericSetAttr_called k (Some w))
      \<in> set (snd (snd (Atom_init H self [] kw)))) \<and>
   (\<forall>kwargs k w member. kw = Some kwargs \<and> (k, w) \<in> set kwargs \<and>
        map_of (m_members self) k = Some member \<and>
        (\<forall>vals. isl (validate member vals k w)) \<longrightarrow>
      isl (fst (Atom_init H self [] kw)))"
proof (intro conjI allI impI)
  assume "args \<noteq> []"
  then show "Atom_init H self args kw =
        (Inl (type_error ''__init__() takes no positional arguments''), self, [])"
    by (simp add: Atom_init_def)
next
  show "Atom_init H self [] None = (Inr (), self, [])"
    and "Atom_init H self [] (Some []) = (Inr (), self, [])"
    by (simp_all add: Atom_init_def)
next
  show "Atom_init H self [] (Some ((key, v) # rest)) =
     (case Atom_setattro H self key (Some v) of
        (Inl e, self', tr) \<Rightarrow> (Inl e, self', tr)
      | (Inr u, self', tr) \<Rightarrow>
          (case Atom_init H self' [] (Some rest) of (r, self'', tr') \<Rightarrow> (r, self'', tr @ tr')))"
    by (simp add: Atom_init_def PyObject_SetAttr_def split: prod.splits sum.splits)
next
  fix kwargs k w
  assume "kw = Some kwargs \<and> (k, w) \<in> set kwargs \<and> fst (Atom_init H self [] kw) = Inr ()"
  then have kw: "kw = Some kwargs" and mem: "(k, w) \<in> set kwargs"
    and ok: "fst (Atom_init_loop H self kwargs) = Inr ()"
    by (auto simp: Atom_init_def)
  from init_loop_events [OF ok mem] kw
  show "(case map_of (m_members self) k of
         Some member \<Rightarrow> Validate_called k w
       | None \<Rightarrow> GenericSetAttr_called k (Some w))
      \<in> set (snd (snd (Atom_init H self [] kw)))"
    by (simp add: Atom_init_def)
next
  fix kwargs k w member
  assume "kw = Some kwargs \<and> (k, w) \<in> set kwargs \<and>
        map_of (m_members self) k = Some member \<and>
        (\<forall>vals. isl (validate member vals k w))"
  then have kw: "kw = Some kwargs" and mem: "(k, w) \<in> set kwargs"
    and reg: "map_of (m_members self) k = Some member"
    and bad: "\<forall>vals. isl (validate member vals k w)"
    by simp_all
  from init_loop_invalid [OF mem reg bad] kw
  show "isl (fst (Atom_init H self [] kw))"
    by (simp add: Atom_init_def)
qed

theorem Atom_init_kwargs_witness:
  "Atom_init host0 point [7] (Some [(''x'', 5)]) =
     (Inl (type_error ''__init__() takes no positional arguments''), point, []) \<and>
   Atom_init host0 point [] (Some [(''x'', 5), (''y'', 6)]) =
     (Inr (), point\<lparr> m_values := [Some 1005, Some 1006] \<rparr>,
      [Validate_called ''x'' 5, Validate_called ''y'' 6]) \<and>
   map_of (m_members point) ''y'' = Some (int_member 1) \<and>
   (\<forall>vals. isl (validate (int_member 1) vals ''y'' 200)) \<and>
   isl (fst (Atom_init host0 point [] (Some [(''x'', 5), (''y'', 200)])))"
proof -
  have m: "map_of (m_members point) ''y'' = Some (int_member 1)"
    by (simp add: point_def Point_members_def)
  have i: "\<forall>vals. isl (validate (int_member 1) vals ''y'' 200)"
    by (simp add: int_member_def)
  have a: "Atom_init host0 point [] (Some [(''x'', 5), (''y'', 6)]) =
     (Inr (), point\<lparr> m_values := [Some 1005, Some 1006] \<rparr>,
      [Validate_called ''x'' 5, Validate_called ''y'' 6])"
    by (simp add: Atom_init_def PyObject_SetAttr_def Atom_setattro_def point_def
        Point_members_def int_member_def)
  have "[7::nat] \<noteq> []" by simp
  with Atom_init_kwargs [of "[7]" host0 point "Some [(''x'', 5)]"]
  have b: "Atom_init host0 point [7] (Some [(''x'', 5)]) =
     (Inl (type_error ''__init__() takes no positional arguments''), point, [])"
    by blast
  have e: "(''y'', 200) \<in> set [(''x'', 5), (''y'', 200::nat)]" by simp
  note rejected = Atom_init_kwargs [of "[]" host0 point "Some [(''x'', 5), (''y'', 200)]",
    THEN conjunct2, THEN conjunct2, THEN conjunct2, THEN conjunct2, THEN conjunct2, rule_format]
  have "isl (fst (Atom_init host0 point [] (Some [(''x'', 5), (''y'', 200)])))"
    by (rule rejected [where kwargs = "[(''x'', 5), (''y'', 200)]" and k = "''y''" and w = 200
          and member = "int_member 1"]) (intro conjI refl e m i)
  with a b m i show ?thesis by (intro conjI)
qed

end
